theory Spec2Isabelle
  imports Main "HOL-Library.Word"
begin

section \<open>Data model\<close>

text \<open>
  The amounts that a binding gives to a contract are Python integers, which the paths
  add, subtract and multiply: an \<open>int\<close> here. The specification describes an amount as a
  non-negative integer; the contracts compare no amount with zero, so being non-negative
  is a hypothesis wherever a property needs it. A \<^verbatim>\<open>PubKey\<close> is only ever stored and
  passed on.

  The guards of the paths (the clauses given to \<^verbatim>\<open>@path\<close> and \<^verbatim>\<open>@unlock\<close>) take no part
  in building a template and are not modelled; a bound field is read as its value.
\<close>

type_synonym Amount = int
type_synonym PubKey = string

text \<open>
  \<^verbatim>\<open>TimeSpec = Union[AbsoluteTimeSpec, RelativeTimeSpec]\<close>; both carry a \<^verbatim>\<open>time\<close>
  attribute.
\<close>

datatype TimeSpec = RelativeTimeSpec (time: int) | AbsoluteTimeSpec (time: int)

text \<open>
  \<^verbatim>\<open>add_timeout(tx, delay)\<close> is an untyped function: it tests its argument with
  \<^verbatim>\<open>isinstance\<close> and falls through when it is neither kind of time spec.
\<close>

datatype delay = IsTimeSpec TimeSpec | NotTimeSpec

text \<open>The exceptions; \<open>OtherError\<close> stands for one of any other class.\<close>

datatype error =
    IndexError
  | KeyError
  | OverflowError
  | DoubleLockError
  | ValidationError
  | TypeError
  | OtherError string

text \<open>
  \<^verbatim>\<open>counterclaim\<close> starts its running total as \<^verbatim>\<open>Amount(int64(0))\<close>. The class
  \<^verbatim>\<open>int64\<close> is imported from \<^verbatim>\<open>sapio.script.clause\<close>, which is not among the sources;
  by its name and its use it is the 64-bit signed integer of NumPy, and the model takes
  it as that: arithmetic of an \<^verbatim>\<open>int64\<close> with a Python integer first converts the Python
  integer to 64 bits, raising \<^verbatim>\<open>OverflowError\<close> when it lies outside
  \<open>-2\<^sup>6\<^sup>3, \<dots>, 2\<^sup>6\<^sup>3 - 1\<close>, and gives an \<^verbatim>\<open>int64\<close> again, wrapping around on overflow.
  \<^verbatim>\<open>Amount\<close> applied to it leaves it as it is. Read as an amount, an \<^verbatim>\<open>int64\<close> is its
  signed value.
\<close>

type_synonym int64 = "64 word"

definition in_int64 :: "int \<Rightarrow> bool" where
  "in_int64 a \<longleftrightarrow> - (2 ^ 63) \<le> a \<and> a < 2 ^ 63"

definition to_int64 :: "int \<Rightarrow> error + int64" where
  "to_int64 a = (if in_int64 a then Inr (word_of_int a) else Inl OverflowError)"

text \<open>\<^verbatim>\<open>x + a\<close> and \<^verbatim>\<open>a - x\<close> for an \<^verbatim>\<open>int64\<close> \<open>x\<close> and a Python integer \<open>a\<close>.\<close>

definition int64_add :: "int64 \<Rightarrow> int \<Rightarrow> error + int64" where
  "int64_add x a = (case to_int64 a of Inl e \<Rightarrow> Inl e | Inr y \<Rightarrow> Inr (x + y))"

definition int64_rsub :: "int \<Rightarrow> int64 \<Rightarrow> error + int64" where
  "int64_rsub a x = (case to_int64 a of Inl e \<Rightarrow> Inl e | Inr y \<Rightarrow> Inr (y - x))"

text \<open>
  The \<^verbatim>\<open>Fields\<close> of each contract class, over the type \<open>'c\<close> of contracts. The
  constructor lists the fields in the order of the class body; a call with keyword
  arguments in the source is written positionally here.

  \<^verbatim>\<open>UndoSend.to_key\<close> is declared \<^verbatim>\<open>PubKey\<close>, but \<^verbatim>\<open>SmarterVault.step\<close> binds it to
  its \<^verbatim>\<open>hot_storage\<close> contract, so the field holds a contract.
\<close>

datatype 'c undo_send =
  UndoSend (from_contract: 'c) (to_key: 'c) (amount: Amount) (timeout: TimeSpec)

datatype 'c undo_send2 =
  UndoSend2 (from_contract: 'c) (to_contract: 'c) (amount: Amount) (timeout: TimeSpec)

datatype 'c smarter_vault =
  SmarterVault (cold_storage: "Amount \<Rightarrow> 'c") (hot_storage: 'c) (n_steps: int)
    (amount_step: Amount) (timeout: TimeSpec) (mature: TimeSpec)

datatype 'c cancellable_subscription =
  CancellableSubscription (amount: Amount) (recipient: 'c)
    (schedule: "(TimeSpec \<times> Amount) list") (return_address: 'c)
    (watchtower_key: PubKey) (return_timeout: TimeSpec)

datatype 'c cancel_contest =
  CancelContest (amount: Amount) (recipient: 'c)
    (schedule: "(TimeSpec \<times> Amount) list") (return_address: 'c)
    (watchtower_key: PubKey) (return_timeout: TimeSpec)

text \<open>
  A contract is an instance of one of the classes above, or of a class defined elsewhere
  (\<^verbatim>\<open>PayToSegwitAddress\<close>, a cold-storage target), which the paths here only pass on.
\<close>

datatype contract =
    OtherContract string
  | UndoSendContract "contract undo_send"
  | UndoSend2Contract "contract undo_send2"
  | SmarterVaultContract "contract smarter_vault"
  | CancellableSubscriptionContract "contract cancellable_subscription"
  | CancelContestContract "contract cancel_contest"

section \<open>Transaction templates\<close>

text \<open>
  Modelled from the spec: the class \<^verbatim>\<open>TransactionTemplate\<close> (module
  \<^verbatim>\<open>sapio.contract.txtemplate\<close>) is not among the sources. The specification gives it
  as an ordered sequence of outputs (amount and target), an optional sequence value and
  an optional locktime value; \<^verbatim>\<open>add_output\<close> appends in order, \<^verbatim>\<open>set_sequence\<close> and
  \<^verbatim>\<open>set_locktime\<close> set their field at most once each, a second call being a
  \<^verbatim>\<open>DoubleLockError\<close>.
\<close>

record template =
  outputs :: "(Amount \<times> contract) list"
  sequence :: "int option"
  locktime :: "int option"

definition TransactionTemplate :: template where
  "TransactionTemplate = \<lparr>outputs = [], sequence = None, locktime = None\<rparr>"

definition add_output :: "template \<Rightarrow> Amount \<Rightarrow> contract \<Rightarrow> template" where
  "add_output tx a target = tx\<lparr>outputs := outputs tx @ [(a, target)]\<rparr>"

definition set_sequence :: "template \<Rightarrow> int \<Rightarrow> error + template" where
  "set_sequence tx v =
     (case sequence tx of
        Some _ \<Rightarrow> Inl DoubleLockError
      | None \<Rightarrow> Inr (tx\<lparr>sequence := Some v\<rparr>))"

definition set_locktime :: "template \<Rightarrow> int \<Rightarrow> error + template" where
  "set_locktime tx v =
     (case locktime tx of
        Some _ \<Rightarrow> Inl DoubleLockError
      | None \<Rightarrow> Inr (tx\<lparr>locktime := Some v\<rparr>))"

definition total_out :: "template \<Rightarrow> Amount" where
  "total_out tx = sum_list (map fst (outputs tx))"

section \<open>\<^verbatim>\<open>undo_send.py\<close>\<close>

definition undo :: "contract undo_send \<Rightarrow> template" where
  "undo self =
     (let tx = TransactionTemplate
      in add_output tx (undo_send.amount self) (undo_send.from_contract self))"

text \<open>The paths \<^verbatim>\<open>complete\<close> and \<^verbatim>\<open>undo\<close> of the class \<^verbatim>\<open>UndoSend2\<close>.\<close>

definition complete :: "contract undo_send2 \<Rightarrow> error + template" where
  "complete self =
     (case set_sequence TransactionTemplate (time (undo_send2.timeout self)) of
        Inl e \<Rightarrow> Inl e
      | Inr tx \<Rightarrow> Inr (add_output tx (undo_send2.amount self) (to_contract self)))"

definition undo2 :: "contract undo_send2 \<Rightarrow> template" where
  "undo2 self =
     (let tx = TransactionTemplate
      in add_output tx (undo_send2.amount self) (undo_send2.from_contract self))"

section \<open>\<^verbatim>\<open>smarter_vault.py\<close>\<close>

definition step :: "contract smarter_vault \<Rightarrow> error + template" where
  "step self =
     (case set_sequence TransactionTemplate (time (smarter_vault.timeout self)) of
        Inl e \<Rightarrow> Inl e
      | Inr tx \<Rightarrow>
          let tx = add_output tx (amount_step self)
                     (UndoSendContract
                        (UndoSend (cold_storage self (amount_step self)) (hot_storage self)
                           (amount_step self) (mature self)))
          in if n_steps self > 1 then
               let steps_left = n_steps self - 1;
                   sub_amount = (n_steps self - 1) * amount_step self;
                   sub_vault = SmarterVault (cold_storage self) (hot_storage self)
                                 (n_steps self - 1) (amount_step self)
                                 (smarter_vault.timeout self) (mature self)
               in Inr (add_output tx sub_amount (SmarterVaultContract sub_vault))
             else Inr tx)"

definition to_cold :: "contract smarter_vault \<Rightarrow> template" where
  "to_cold self =
     (let tx = TransactionTemplate;
          v = n_steps self * amount_step self
      in add_output tx v (cold_storage self v))"

section \<open>\<^verbatim>\<open>subscription.py\<close>\<close>

fun add_timeout :: "template \<Rightarrow> delay \<Rightarrow> error + template" where
  "add_timeout tx (IsTimeSpec (RelativeTimeSpec t)) = set_sequence tx t"
| "add_timeout tx (IsTimeSpec (AbsoluteTimeSpec t)) = set_locktime tx t"
| "add_timeout tx NotTimeSpec = Inr tx"

definition cancel :: "contract cancellable_subscription \<Rightarrow> template" where
  "cancel self =
     (let tx = TransactionTemplate;
          a = cancellable_subscription.amount self;
          cc = CancelContest a (cancellable_subscription.recipient self)
                 (cancellable_subscription.schedule self)
                 (cancellable_subscription.return_address self)
                 (cancellable_subscription.watchtower_key self)
                 (cancellable_subscription.return_timeout self)
      in add_output tx a (CancelContestContract cc))"

text \<open>
  \<^verbatim>\<open>self.schedule.assigned_value[0]\<close> raises \<^verbatim>\<open>IndexError\<close> on an empty schedule;
  \<^verbatim>\<open>self.schedule.assigned_value[1:]\<close> is the tail. The delays of a schedule are
  declared \<^verbatim>\<open>AbsoluteTimeSpec\<close>; the model lets them be time specs of either kind.
\<close>

definition claim :: "contract cancellable_subscription \<Rightarrow> error + template" where
  "claim self =
     (case cancellable_subscription.schedule self of
        [] \<Rightarrow> Inl IndexError
      | (d, a) # rest \<Rightarrow>
          (case add_timeout TransactionTemplate (IsTimeSpec d) of
             Inl e \<Rightarrow> Inl e
           | Inr tx \<Rightarrow>
               let total_amount = cancellable_subscription.amount self;
                   tx = add_output tx a (cancellable_subscription.recipient self)
               in if length (cancellable_subscription.schedule self) > 1 then
                    let new_amount = total_amount - a
                    in Inr (add_output tx new_amount
                          (CancellableSubscriptionContract
                             (CancellableSubscription new_amount
                                (cancellable_subscription.recipient self) rest
                                (cancellable_subscription.return_address self)
                                (cancellable_subscription.watchtower_key self)
                                (cancellable_subscription.return_timeout self))))
                  else Inr tx))"

text \<open>
  \<^verbatim>\<open>counterclaim\<close> is a generator: it yields one template per schedule entry, and an
  exception raised in an iteration ends it. The model returns the templates yielded, in
  order, with the error that ended the iteration if there was one. The loop carries
  \<^verbatim>\<open>amount_earned\<close>, an \<^verbatim>\<open>int64\<close>; \<^verbatim>\<open>amount_earned += amount\<close> and
  \<^verbatim>\<open>self.amount.assigned_value - amount_earned\<close> are 64-bit operations and come before
  the template is made; \<^verbatim>\<open>if amount_refundable:\<close> is the truthiness of an integer, that
  is, being nonzero.
\<close>

fun counterclaim_loop ::
  "contract cancel_contest \<Rightarrow> int64 \<Rightarrow> (TimeSpec \<times> Amount) list \<Rightarrow> template list \<times> error option"
where
  "counterclaim_loop self amount_earned [] = ([], None)"
| "counterclaim_loop self amount_earned ((t, a) # rest) =
     (case int64_add amount_earned a of
        Inl e \<Rightarrow> ([], Some e)
      | Inr amount_earned \<Rightarrow>
     (case int64_rsub (cancel_contest.amount self) amount_earned of
        Inl e \<Rightarrow> ([], Some e)
      | Inr amount_refundable \<Rightarrow>
     (case add_timeout TransactionTemplate (IsTimeSpec t) of
        Inl e \<Rightarrow> ([], Some e)
      | Inr tx \<Rightarrow>
          let tx = add_output tx (sint amount_earned) (cancel_contest.recipient self);
              tx = (if amount_refundable \<noteq> 0
                    then add_output tx (sint amount_refundable)
                           (cancel_contest.return_address self)
                    else tx);
              (txs, err) = counterclaim_loop self amount_earned rest
          in (tx # txs, err))))"

definition counterclaim :: "contract cancel_contest \<Rightarrow> template list \<times> error option" where
  "counterclaim self = counterclaim_loop self (0 :: int64) (cancel_contest.schedule self)"

definition finish_cancel :: "contract cancel_contest \<Rightarrow> error + template" where
  "finish_cancel self =
     (case set_sequence TransactionTemplate (time (cancel_contest.return_timeout self)) of
        Inl e \<Rightarrow> Inl e
      | Inr tx \<Rightarrow>
          let a = cancel_contest.amount self;
              return_address = cancel_contest.return_address self
          in Inr (add_output tx a return_address))"




section \<open>\<^verbatim>\<open>payments.py\<close>\<close>

text \<open>
  The argument of \<^verbatim>\<open>convert\<close> is a decoded JSON value (numbers are kept as integers;
  nothing here reads one).
\<close>

datatype json =
    JNull
  | JBool bool
  | JNumber int
  | JString string
  | JArray "json list"
  | JObject "(string \<times> json) list"

text \<open>
  \<^verbatim>\<open>validator.validate(arg)\<close> for the schema
  \<^verbatim>\<open>{"type": "array", "items": address.schema}\<close>: the instance must be an array
  and each item must conform to the address schema; otherwise a validation error is
  raised. The module \<^verbatim>\<open>sapio_server.network.json.address\<close> is not among the sources:
  conformance to its schema and its \<^verbatim>\<open>convert\<close> are parameters, and its
  \<^verbatim>\<open>convert\<close> may raise.
\<close>

definition validate :: "(json \<Rightarrow> bool) \<Rightarrow> json \<Rightarrow> error + unit" where
  "validate address_schema arg =
     (case arg of
        JArray items \<Rightarrow> if list_all address_schema items then Inr () else Inl ValidationError
      | _ \<Rightarrow> Inl ValidationError)"

text \<open>\<^verbatim>\<open>list(map(f, xs))\<close>: the calls are made in order and the first exception ends it.\<close>

fun py_map :: "('a \<Rightarrow> error + 'b) \<Rightarrow> 'a list \<Rightarrow> error + 'b list" where
  "py_map f [] = Inr []"
| "py_map f (x # xs) =
     (case f x of
        Inl e \<Rightarrow> Inl e
      | Inr y \<Rightarrow> (case py_map f xs of Inl e \<Rightarrow> Inl e | Inr ys \<Rightarrow> Inr (y # ys)))"

text \<open>
  After a successful validation the argument is an array; the last branch is never
  reached.
\<close>

definition convert ::
  "(json \<Rightarrow> bool) \<Rightarrow> (json \<Rightarrow> 'ctx \<Rightarrow> error + Amount \<times> contract) \<Rightarrow> json \<Rightarrow> 'ctx
     \<Rightarrow> error + (Amount \<times> contract) list"
where
  "convert address_schema address_convert arg ctx =
     (case validate address_schema arg of
        Inl e \<Rightarrow> Inl e
      | Inr _ \<Rightarrow>
          (case arg of
             JArray items \<Rightarrow> py_map (\<lambda>p. address_convert p ctx) items
           | _ \<Rightarrow> Inl TypeError))"

section \<open>The paths on a store of template objects\<close>

text \<open>
  The paths above build their template by passing it along. In the source a template is
  an object: \<^verbatim>\<open>TransactionTemplate()\<close> allocates one and \<^verbatim>\<open>add_output\<close>,
  \<^verbatim>\<open>set_sequence\<close> and \<^verbatim>\<open>set_locktime\<close> update it in place. Here the paths run on an
  explicit store of template objects: a path takes the store it is called in and returns
  a reference to the template it built (or the exception it raised) and the store it
  leaves behind. An exception leaves the store as it was when raised. A generator is run
  to its end.
\<close>

record store =
  obj :: "nat \<Rightarrow> template"
  next_ref :: nat

type_synonym 'a prog = "store \<Rightarrow> (error + 'a) \<times> store"

definition st_return :: "'a \<Rightarrow> 'a prog" where
  "st_return x s = (Inr x, s)"

definition st_raise :: "error \<Rightarrow> 'a prog" where
  "st_raise e s = (Inl e, s)"

definition st_bind :: "'a prog \<Rightarrow> ('a \<Rightarrow> 'b prog) \<Rightarrow> 'b prog" where
  "st_bind m f s = (case m s of (Inl e, s') \<Rightarrow> (Inl e, s') | (Inr x, s') \<Rightarrow> f x s')"

definition new_template :: "nat prog" where
  "new_template s =
     (Inr (next_ref s),
      s\<lparr>obj := (obj s)(next_ref s := TransactionTemplate), next_ref := Suc (next_ref s)\<rparr>)"

definition add_output_st :: "nat \<Rightarrow> Amount \<Rightarrow> contract \<Rightarrow> unit prog" where
  "add_output_st tx a target s =
     (Inr (), s\<lparr>obj := (obj s)(tx := add_output (obj s tx) a target)\<rparr>)"

definition set_sequence_st :: "nat \<Rightarrow> int \<Rightarrow> unit prog" where
  "set_sequence_st tx v s =
     (case set_sequence (obj s tx) v of
        Inl e \<Rightarrow> (Inl e, s)
      | Inr t \<Rightarrow> (Inr (), s\<lparr>obj := (obj s)(tx := t)\<rparr>))"

definition set_locktime_st :: "nat \<Rightarrow> int \<Rightarrow> unit prog" where
  "set_locktime_st tx v s =
     (case set_locktime (obj s tx) v of
        Inl e \<Rightarrow> (Inl e, s)
      | Inr t \<Rightarrow> (Inr (), s\<lparr>obj := (obj s)(tx := t)\<rparr>))"

fun add_timeout_st :: "nat \<Rightarrow> delay \<Rightarrow> unit prog" where
  "add_timeout_st tx (IsTimeSpec (RelativeTimeSpec t)) = set_sequence_st tx t"
| "add_timeout_st tx (IsTimeSpec (AbsoluteTimeSpec t)) = set_locktime_st tx t"
| "add_timeout_st tx NotTimeSpec = st_return ()"

definition step_st :: "contract smarter_vault \<Rightarrow> nat prog" where
  "step_st self =
     st_bind new_template (\<lambda>tx.
     st_bind (set_sequence_st tx (time (smarter_vault.timeout self))) (\<lambda>_.
     st_bind (add_output_st tx (amount_step self)
                (UndoSendContract
                   (UndoSend (cold_storage self (amount_step self)) (hot_storage self)
                      (amount_step self) (mature self)))) (\<lambda>_.
     if n_steps self > 1 then
       let steps_left = n_steps self - 1;
           sub_amount = (n_steps self - 1) * amount_step self;
           sub_vault = SmarterVault (cold_storage self) (hot_storage self)
                         (n_steps self - 1) (amount_step self)
                         (smarter_vault.timeout self) (mature self)
       in st_bind (add_output_st tx sub_amount (SmarterVaultContract sub_vault)) (\<lambda>_.
          st_return tx)
     else st_return tx)))"

definition to_cold_st :: "contract smarter_vault \<Rightarrow> nat prog" where
  "to_cold_st self =
     st_bind new_template (\<lambda>tx.
     let v = n_steps self * amount_step self
     in st_bind (add_output_st tx v (cold_storage self v)) (\<lambda>_.
        st_return tx))"

definition claim_st :: "contract cancellable_subscription \<Rightarrow> nat prog" where
  "claim_st self =
     st_bind new_template (\<lambda>tx.
     case cancellable_subscription.schedule self of
       [] \<Rightarrow> st_raise IndexError
     | (d, a) # rest \<Rightarrow>
         st_bind (add_timeout_st tx (IsTimeSpec d)) (\<lambda>_.
         let total_amount = cancellable_subscription.amount self
         in st_bind (add_output_st tx a (cancellable_subscription.recipient self)) (\<lambda>_.
            if length (cancellable_subscription.schedule self) > 1 then
              let new_amount = total_amount - a
              in st_bind (add_output_st tx new_amount
                            (CancellableSubscriptionContract
                               (CancellableSubscription new_amount
                                  (cancellable_subscription.recipient self) rest
                                  (cancellable_subscription.return_address self)
                                  (cancellable_subscription.watchtower_key self)
                                  (cancellable_subscription.return_timeout self)))) (\<lambda>_.
                 st_return tx)
            else st_return tx)))"

definition cancel_st :: "contract cancellable_subscription \<Rightarrow> nat prog" where
  "cancel_st self =
     st_bind new_template (\<lambda>tx.
     let a = cancellable_subscription.amount self;
         cc = CancelContest a (cancellable_subscription.recipient self)
                (cancellable_subscription.schedule self)
                (cancellable_subscription.return_address self)
                (cancellable_subscription.watchtower_key self)
                (cancellable_subscription.return_timeout self)
     in st_bind (add_output_st tx a (CancelContestContract cc)) (\<lambda>_.
        st_return tx))"

fun counterclaim_loop_st ::
  "contract cancel_contest \<Rightarrow> int64 \<Rightarrow> (TimeSpec \<times> Amount) list \<Rightarrow> store
     \<Rightarrow> (nat list \<times> error option) \<times> store"
where
  "counterclaim_loop_st self amount_earned [] s = (([], None), s)"
| "counterclaim_loop_st self amount_earned ((t, a) # rest) s =
     (case int64_add amount_earned a of
        Inl e \<Rightarrow> (([], Some e), s)
      | Inr amount_earned \<Rightarrow>
     (case int64_rsub (cancel_contest.amount self) amount_earned of
        Inl e \<Rightarrow> (([], Some e), s)
      | Inr amount_refundable \<Rightarrow>
     (case
        st_bind new_template (\<lambda>tx.
        st_bind (add_timeout_st tx (IsTimeSpec t)) (\<lambda>_.
        st_bind (add_output_st tx (sint amount_earned) (cancel_contest.recipient self)) (\<lambda>_.
        if amount_refundable \<noteq> 0
        then st_bind (add_output_st tx (sint amount_refundable)
                        (cancel_contest.return_address self)) (\<lambda>_.
             st_return tx)
        else st_return tx))) s
      of
        (Inl e, s') \<Rightarrow> (([], Some e), s')
      | (Inr tx, s') \<Rightarrow>
          (case counterclaim_loop_st self amount_earned rest s' of
             ((txs, err), s'') \<Rightarrow> ((tx # txs, err), s'')))))"

definition counterclaim_st ::
  "contract cancel_contest \<Rightarrow> store \<Rightarrow> (nat list \<times> error option) \<times> store"
where
  "counterclaim_st self s =
     counterclaim_loop_st self (0 :: int64) (cancel_contest.schedule self) s"

definition finish_cancel_st :: "contract cancel_contest \<Rightarrow> nat prog" where
  "finish_cancel_st self =
     st_bind new_template (\<lambda>tx.
     st_bind (set_sequence_st tx (time (cancel_contest.return_timeout self))) (\<lambda>_.
     let a = cancel_contest.amount self;
         return_address = cancel_contest.return_address self
     in st_bind (add_output_st tx a return_address) (\<lambda>_.
        st_return tx)))"

definition undo_st :: "contract undo_send \<Rightarrow> nat prog" where
  "undo_st self =
     st_bind new_template (\<lambda>tx.
     st_bind (add_output_st tx (undo_send.amount self) (undo_send.from_contract self)) (\<lambda>_.
     st_return tx))"

definition complete_st :: "contract undo_send2 \<Rightarrow> nat prog" where
  "complete_st self =
     st_bind new_template (\<lambda>tx.
     st_bind (set_sequence_st tx (time (undo_send2.timeout self))) (\<lambda>_.
     st_bind (add_output_st tx (undo_send2.amount self) (to_contract self)) (\<lambda>_.
     st_return tx)))"

definition undo2_st :: "contract undo_send2 \<Rightarrow> nat prog" where
  "undo2_st self =
     st_bind new_template (\<lambda>tx.
     st_bind (add_output_st tx (undo_send2.amount self) (undo_send2.from_contract self)) (\<lambda>_.
     st_return tx))"

text \<open>
  What a caller sees of a run: the template behind the reference returned, read in a
  given store, or the templates behind the references a generator yielded.
\<close>

definition result_of :: "(error + nat) \<times> store \<Rightarrow> error + template" where
  "result_of p = (case p of (Inl e, s) \<Rightarrow> Inl e | (Inr tx, s) \<Rightarrow> Inr (obj s tx))"

definition results_of :: "(nat list \<times> error option) \<times> store \<Rightarrow> template list \<times> error option" where
  "results_of p = (case p of ((txs, err), s) \<Rightarrow> (map (obj s) txs, err))"

text \<open>The store after a path has allocated a template and left it as \<open>tx\<close>.\<close>

definition allocated :: "store \<Rightarrow> template \<Rightarrow> store" where
  "allocated s tx = s\<lparr>obj := (obj s)(next_ref s := tx), next_ref := Suc (next_ref s)\<rparr>"

text \<open>The store after a generator has allocated and yielded the templates \<open>txs\<close>.\<close>

definition yielded :: "store \<Rightarrow> template list \<Rightarrow> store" where
  "yielded s txs =
     s\<lparr>obj := (\<lambda>r. if next_ref s \<le> r \<and> r < next_ref s + length txs
                     then txs ! (r - next_ref s) else obj s r),
       next_ref := next_ref s + length txs\<rparr>"

text \<open>Two calls one after the other, the second in the store the first leaves behind.\<close>

definition twice :: "(store \<Rightarrow> 'r \<times> store) \<Rightarrow> store \<Rightarrow> ('r \<times> 'r) \<times> store" where
  "twice m s = (case m s of (r1, s1) \<Rightarrow> (case m s1 of (r2, s2) \<Rightarrow> ((r1, r2), s2)))"

section \<open>Observations on templates\<close>

text \<open>The sub-vaults among the targets of a template's outputs, in order.\<close>

definition nested_vaults :: "template \<Rightarrow> contract smarter_vault list" where
  "nested_vaults tx =
     List.map_filter
       (\<lambda>(a, c). case c of SmarterVaultContract v \<Rightarrow> Some v | _ \<Rightarrow> None) (outputs tx)"

text \<open>
  Following the sub-vault output of the \<^verbatim>\<open>step\<close> path: the vault itself, then the
  sub-vault its \<^verbatim>\<open>step\<close> template pays to, and so on, until a \<^verbatim>\<open>step\<close> template pays
  to no sub-vault. The recursion ends because a sub-vault has fewer steps left.
\<close>

function vault_chain :: "contract smarter_vault \<Rightarrow> contract smarter_vault list" where
  "vault_chain v =
     v # (case step v of
            Inl e \<Rightarrow> []
          | Inr tx \<Rightarrow> (case nested_vaults tx of [] \<Rightarrow> [] | v' # _ \<Rightarrow> vault_chain v'))"
  by pat_completeness auto
termination
proof (relation "measure (\<lambda>v. nat (n_steps v))")
  show "wf (measure (\<lambda>v. nat (n_steps v)))" by simp
next
  fix v tx v' vs
  assume "step v = Inr tx" and "nested_vaults tx = v' # vs"
  then show "(v', v) \<in> measure (\<lambda>v. nat (n_steps v))"
    by (auto simp: step_def set_sequence_def TransactionTemplate_def add_output_def Let_def
          nested_vaults_def List.map_filter_def split: if_splits)
qed

declare vault_chain.simps [simp del]

text \<open>The sum of the first \<open>i\<close> amounts of a schedule.\<close>

definition cumulative :: "(TimeSpec \<times> Amount) list \<Rightarrow> nat \<Rightarrow> Amount" where
  "cumulative sched i = sum_list (map snd (take i sched))"

text \<open>The sequence and locktime fields that a fresh template gets from a time spec.\<close>

definition timelocked :: "TimeSpec \<Rightarrow> (Amount \<times> contract) list \<Rightarrow> template" where
  "timelocked d outs =
     (case d of
        RelativeTimeSpec t \<Rightarrow> \<lparr>outputs = outs, sequence = Some t, locktime = None\<rparr>
      | AbsoluteTimeSpec t \<Rightarrow> \<lparr>outputs = outs, sequence = None, locktime = Some t\<rparr>)"

text \<open>
  The outputs of the template that \<^verbatim>\<open>counterclaim\<close> builds when the running total is
  \<open>earned\<close> and the bound amount fits in 64 bits: the payment to the recipient, then
  the refund of the rest unless the rest, as computed in 64 bits, is zero.
\<close>

definition contest_outputs :: "contract cancel_contest \<Rightarrow> int64 \<Rightarrow> (Amount \<times> contract) list" where
  "contest_outputs self earned =
     (sint earned, cancel_contest.recipient self) #
     (if word_of_int (cancel_contest.amount self) - earned \<noteq> 0
      then [(sint (word_of_int (cancel_contest.amount self) - earned),
             cancel_contest.return_address self)]
      else [])"

text \<open>What a template pays to a given target: the sum of its outputs to it.\<close>

definition paid_to :: "contract \<Rightarrow> template \<Rightarrow> Amount" where
  "paid_to target tx = sum_list (map fst (filter (\<lambda>p. snd p = target) (outputs tx)))"

section \<open>Example bindings\<close>

definition example_cold :: "Amount \<Rightarrow> contract" where
  "example_cold a = OtherContract ''cold''"

definition example_vault :: "int \<Rightarrow> contract smarter_vault" where
  "example_vault n =
     SmarterVault example_cold (OtherContract ''hot'') n 100 (RelativeTimeSpec 10)
       (RelativeTimeSpec 20)"

definition example_subscription ::
  "Amount \<Rightarrow> (TimeSpec \<times> Amount) list \<Rightarrow> contract cancellable_subscription"
where
  "example_subscription a sched =
     CancellableSubscription a (OtherContract ''recipient'') sched (OtherContract ''return'')
       ''watchtower'' (RelativeTimeSpec 5)"

definition example_contest ::
  "Amount \<Rightarrow> (TimeSpec \<times> Amount) list \<Rightarrow> contract cancel_contest"
where
  "example_contest a sched =
     CancelContest a (OtherContract ''recipient'') sched (OtherContract ''return'')
       ''watchtower'' (RelativeTimeSpec 5)"

definition example_schema :: "json \<Rightarrow> bool" where
  "example_schema j = (case j of JString _ \<Rightarrow> True | _ \<Rightarrow> False)"

definition example_convert :: "json \<Rightarrow> Amount \<Rightarrow> error + Amount \<times> contract" where
  "example_convert p ctx =
     (case p of JString a \<Rightarrow> Inr (ctx, OtherContract a) | _ \<Rightarrow> Inl TypeError)"

section \<open>Basic facts\<close>

lemmas path_defs = step_def to_cold_def cancel_def claim_def set_sequence_def set_locktime_def
  TransactionTemplate_def add_output_def total_out_def Let_def

lemmas example_defs = example_cold_def example_vault_def example_subscription_def
  example_contest_def

lemma step_returns:
  "\<exists>tx. step self = Inr tx"
  by (simp add: path_defs)

lemma add_timeout_fresh:
  "add_timeout TransactionTemplate (IsTimeSpec d) = Inr (timelocked d [])"
  by (cases d) (simp_all add: path_defs timelocked_def)

lemma add_output_timelocked:
  "add_output (timelocked d outs) a c = timelocked d (outs @ [(a, c)])"
  by (cases d) (simp_all add: add_output_def timelocked_def)

lemma outputs_timelocked: "outputs (timelocked d outs) = outs"
  by (cases d) (simp_all add: timelocked_def)






section \<open>The vault\<close>

lemma nested_step:
  assumes "step v = Inr tx"
  shows "nested_vaults tx =
    (if n_steps v > 1
     then [SmarterVault (cold_storage v) (hot_storage v) (n_steps v - 1) (amount_step v)
             (smarter_vault.timeout v) (mature v)]
     else [])"
  using assms
  by (auto simp: path_defs nested_vaults_def List.map_filter_def split: if_splits)

lemma vault_chain_unfold:
  "vault_chain v =
     (if n_steps v > 1
      then v # vault_chain (SmarterVault (cold_storage v) (hot_storage v) (n_steps v - 1)
                               (amount_step v) (smarter_vault.timeout v) (mature v))
      else [v])"
proof -
  obtain tx where tx: "step v = Inr tx" using step_returns by blast
  show ?thesis
    by (subst vault_chain.simps) (simp add: tx nested_step [OF tx])
qed

lemma vault_chain_eq:
  "vault_chain (SmarterVault cs hs (int (Suc k)) a t m) =
     map (\<lambda>j. SmarterVault cs hs (int (Suc k) - int j) a t m) [0..<Suc k]"
proof (induction k)
  case 0
  show ?case by (subst vault_chain_unfold) simp
next
  case (Suc k)
  have "vault_chain (SmarterVault cs hs (int (Suc (Suc k))) a t m) =
        SmarterVault cs hs (int (Suc (Suc k))) a t m #
        vault_chain (SmarterVault cs hs (int (Suc k)) a t m)"
    by (subst vault_chain_unfold) simp
  also have "vault_chain (SmarterVault cs hs (int (Suc k)) a t m) =
     map (\<lambda>j. SmarterVault cs hs (int (Suc k) - int j) a t m) [0..<Suc k]"
    by (rule Suc.IH)
  also have "SmarterVault cs hs (int (Suc (Suc k))) a t m #
       map (\<lambda>j. SmarterVault cs hs (int (Suc k) - int j) a t m) [0..<Suc k] =
     map (\<lambda>j. SmarterVault cs hs (int (Suc (Suc k)) - int j) a t m) [0..<Suc (Suc k)]"
    by (simp add: map_upt_Suc [of _ "Suc k"] del: upt_Suc)
  finally show ?case .
qed

text \<open>
  C3. A vault bound with \<open>n_steps = 3\<close> and \<open>amount_step = 100\<close>: the \<^verbatim>\<open>step\<close> path
  gives a template whose first output is 100 to an \<^verbatim>\<open>UndoSend\<close> (from the cold storage
  applied to 100, to the hot storage, with timeout \<^verbatim>\<open>mature\<close> and amount 100) and whose
  second output is 200 to a vault with two steps left and the other fields unchanged; the
  \<^verbatim>\<open>to_cold\<close> path gives a single output of 300 to the cold storage applied to 300.
\<close>

theorem vault_scenario:
  "step (SmarterVault cs hs 3 100 t m) =
     Inr \<lparr>outputs = [(100, UndoSendContract (UndoSend (cs 100) hs 100 m)),
                     (200, SmarterVaultContract (SmarterVault cs hs 2 100 t m))],
          sequence = Some (time t), locktime = None\<rparr>
   \<and> to_cold (SmarterVault cs hs 3 100 t m) =
     \<lparr>outputs = [(300, cs 300)], sequence = None, locktime = None\<rparr>"
  by (simp add: path_defs)

text \<open>
  C5. For a vault with \<open>n_steps = N \<ge> 1\<close>, following the sub-vault output of the
  \<^verbatim>\<open>step\<close> path visits exactly \<open>N\<close> vaults, the one at level \<open>j\<close> having \<open>N - j\<close> steps
  left and the other fields unchanged; and with one step left the \<^verbatim>\<open>step\<close> template has
  the \<^verbatim>\<open>UndoSend\<close> output only, and no sub-vault.
\<close>

theorem vault_recursion_terminates:
  "1 \<le> n_steps v \<Longrightarrow>
     vault_chain v =
       map (\<lambda>j. SmarterVault (cold_storage v) (hot_storage v) (n_steps v - int j)
                  (amount_step v) (smarter_vault.timeout v) (mature v))
         [0..<nat (n_steps v)]
   \<and> length (vault_chain v) = nat (n_steps v)
   \<and> (n_steps v = 1 \<longrightarrow>
        (\<exists>tx. step v = Inr tx \<and> nested_vaults tx = [] \<and>
           outputs tx =
             [(amount_step v,
               UndoSendContract (UndoSend (cold_storage v (amount_step v)) (hot_storage v)
                                   (amount_step v) (mature v)))]))"
proof -
  assume n: "1 \<le> n_steps v"
  obtain cs hs N a t m where v: "v = SmarterVault cs hs N a t m"
    by (cases v)
  from n v have "0 < N" by simp
  then obtain k where k: "N = int (Suc k)"
    using zero_less_imp_eq_int [of N] by (metis gr0_implies_Suc)
  have chain: "vault_chain v =
       map (\<lambda>j. SmarterVault (cold_storage v) (hot_storage v) (n_steps v - int j)
                  (amount_step v) (smarter_vault.timeout v) (mature v))
         [0..<nat (n_steps v)]"
  proof -
    have "nat (1 + int k) = Suc k" by arith
    then show ?thesis
      using vault_chain_eq [of cs hs k a t m] by (simp add: v k del: upt_Suc)
  qed
  have base: "n_steps v = 1 \<longrightarrow>
        (\<exists>tx. step v = Inr tx \<and> nested_vaults tx = [] \<and>
           outputs tx =
             [(amount_step v,
               UndoSendContract (UndoSend (cold_storage v (amount_step v)) (hot_storage v)
                                   (amount_step v) (mature v)))])"
    by (simp add: path_defs nested_vaults_def List.map_filter_def)
  from chain base show ?thesis by simp
qed

theorem vault_recursion_terminates_witness:
  "1 \<le> n_steps (example_vault 3)
   \<and> map n_steps (vault_chain (example_vault 3)) = [3, 2, 1]
   \<and> length (vault_chain (example_vault 3)) = 3
   \<and> n_steps (example_vault 1) = 1
   \<and> vault_chain (example_vault 1) = [example_vault 1]
   \<and> (\<exists>tx. step (example_vault 1) = Inr tx \<and> nested_vaults tx = [] \<and>
         outputs tx =
           [(100, UndoSendContract (UndoSend (OtherContract ''cold'') (OtherContract ''hot'')
                                      100 (RelativeTimeSpec 20)))])"
  using vault_recursion_terminates [of "example_vault 3"]
    vault_recursion_terminates [of "example_vault 1"]
  by (simp add: example_defs upt_conv_Cons)

section \<open>The subscription\<close>

lemma continuation_not_recipient:
  "CancellableSubscriptionContract (CancellableSubscription a r sched ra wk rt) \<noteq> r"
proof
  assume "CancellableSubscriptionContract (CancellableSubscription a r sched ra wk rt) = r"
  then have "size (CancellableSubscriptionContract (CancellableSubscription a r sched ra wk rt))
               = size r"
    by simp
  then show False by simp
qed

text \<open>
  C4. A subscription bound with schedule \<open>[(h1, 50), (h2, 50)]\<close> and amount 100: \<^verbatim>\<open>claim\<close>
  pays 50 to the recipient and 50 to a continuation subscription bound with amount 50
  and schedule \<open>[(h2, 50)]\<close>; the continuation's \<^verbatim>\<open>claim\<close> pays 50 to the recipient and
  has no other output; the two templates together pay 100 to the recipient.
\<close>

theorem subscription_scenario:
  "claim (CancellableSubscription 100 r [(h1, 50), (h2, 50)] ra wk rt) =
     Inr (timelocked h1
            [(50, r),
             (50, CancellableSubscriptionContract
                    (CancellableSubscription 50 r [(h2, 50)] ra wk rt))])
   \<and> claim (CancellableSubscription 50 r [(h2, 50)] ra wk rt) =
     Inr (timelocked h2 [(50, r)])
   \<and> paid_to r (timelocked h1
                  [(50, r),
                   (50, CancellableSubscriptionContract
                          (CancellableSubscription 50 r [(h2, 50)] ra wk rt))])
       + paid_to r (timelocked h2 [(50, r)]) = 100"
  by (simp add: claim_def add_timeout_fresh add_output_timelocked outputs_timelocked
      paid_to_def continuation_not_recipient)

section \<open>Conservation\<close>




section \<open>The cancellation contest\<close>

lemmas int64_defs = int64_add_def int64_rsub_def to_int64_def

lemma sint_exact: "in_int64 a \<Longrightarrow> sint (word_of_int a :: int64) = a"
  by (simp add: in_int64_def sint_sbintrunc' signed_take_bit_int_eq_self)

lemma word_zero_exact: "in_int64 a \<Longrightarrow> (word_of_int a :: int64) = 0 \<longleftrightarrow> a = 0"
  using sint_exact [of a] by (metis sint_0 of_int_0)

lemma cumulative_0: "cumulative sched 0 = 0"
  by (simp add: cumulative_def)

lemma cumulative_Cons: "cumulative ((t, a) # rest) (Suc i) = a + cumulative rest i"
  by (simp add: cumulative_def)

lemma cumulative_all: "length sched \<le> i \<Longrightarrow> cumulative sched i = sum_list (map snd sched)"
  by (simp add: cumulative_def)

lemma cumulative_Suc:
  "i < length sched \<Longrightarrow> cumulative sched (Suc i) = cumulative sched i + snd (sched ! i)"
  by (simp add: cumulative_def take_Suc_conv_app_nth)

lemma cumulative_mono:
  assumes "\<forall>(t, a) \<in> set sched. 0 \<le> a" and "i \<le> j"
  shows "cumulative sched i \<le> cumulative sched j"
proof -
  have "take j sched = take i sched @ take (j - i) (drop i sched)"
    using assms(2) by (metis le_add_diff_inverse take_add)
  moreover have "0 \<le> sum_list (map snd (take (j - i) (drop i sched)))"
  proof (rule sum_list_nonneg)
    fix x assume "x \<in> set (map snd (take (j - i) (drop i sched)))"
    then obtain p where "p \<in> set sched" "x = snd p"
      by (auto dest!: in_set_takeD in_set_dropD)
    with assms(1) show "0 \<le> x" by auto
  qed
  ultimately show ?thesis by (simp add: cumulative_def)
qed

lemma cumulative_nonneg:
  assumes "\<forall>(t, a) \<in> set sched. 0 \<le> a"
  shows "0 \<le> cumulative sched i"
  using cumulative_mono [OF assms, of 0 i] by (simp add: cumulative_0)

lemma cumulative_le_total:
  assumes "\<forall>(t, a) \<in> set sched. 0 \<le> a"
  shows "cumulative sched i \<le> sum_list (map snd sched)"
proof (cases "i \<le> length sched")
  case True
  from cumulative_mono [OF assms True] show ?thesis by (simp add: cumulative_all)
next
  case False
  then show ?thesis by (simp add: cumulative_all)
qed

lemma counterclaim_loop_eq:
  assumes "in_int64 (cancel_contest.amount self)" and "\<forall>(t, a) \<in> set sched. in_int64 a"
  shows "counterclaim_loop self acc sched =
     (map (\<lambda>i. timelocked (fst (sched ! i))
                 (contest_outputs self (acc + word_of_int (cumulative sched (Suc i)))))
        [0..<length sched], None)"
  using assms(2)
proof (induction sched arbitrary: acc)
  case Nil
  show ?case by simp
next
  case (Cons x rest)
  obtain t a where x: "x = (t, a)" by (cases x)
  from Cons.prems x have a: "in_int64 a" and rest: "\<forall>(t, a) \<in> set rest. in_int64 a"
    by auto
  show ?case
    unfolding x
    by (simp add: Cons.IH [OF rest] a assms(1) int64_defs add_timeout_fresh
        add_output_timelocked contest_outputs_def cumulative_Cons cumulative_0 map_upt_Suc
        add.assoc Let_def del: upt_Suc)
qed

lemma counterclaim_eq:
  assumes "in_int64 (cancel_contest.amount self)"
    and "\<forall>(t, a) \<in> set (cancel_contest.schedule self). in_int64 a"
  shows "counterclaim self =
     (map (\<lambda>i. timelocked (fst (cancel_contest.schedule self ! i))
                 (contest_outputs self
                    (word_of_int (cumulative (cancel_contest.schedule self) (Suc i)))))
        [0..<length (cancel_contest.schedule self)], None)"
  by (simp add: counterclaim_def counterclaim_loop_eq [OF assms])

lemma counterclaim_nth:
  assumes "in_int64 (cancel_contest.amount self)"
    and "\<forall>(t, a) \<in> set (cancel_contest.schedule self). in_int64 a"
    and "i < length (cancel_contest.schedule self)"
  shows "outputs (fst (counterclaim self) ! i) =
     contest_outputs self (word_of_int (cumulative (cancel_contest.schedule self) (Suc i)))"
  using assms(3) by (simp add: counterclaim_eq [OF assms(1,2)] outputs_timelocked del: upt_Suc)


lemma counterclaim_loop_length:
  "length (fst (counterclaim_loop self acc sched)) \<le> length sched"
proof (induction sched arbitrary: acc)
  case Nil
  show ?case by simp
next
  case (Cons x rest)
  obtain t a where x: "x = (t, a)" by (cases x)
  have "length (fst (counterclaim_loop self acc' rest)) \<le> length rest" for acc'
    by (rule Cons.IH)
  then show ?case
    unfolding x
    by (auto simp: Let_def split_beta split: sum.splits)
qed

lemma contest_outputs_exact:
  assumes "in_int64 c" and "in_int64 (cancel_contest.amount self - c)"
  shows "contest_outputs self (word_of_int c) =
     (c, cancel_contest.recipient self) #
     (if cancel_contest.amount self = c then []
      else [(cancel_contest.amount self - c, cancel_contest.return_address self)])"
proof -
  have "(word_of_int (cancel_contest.amount self) - word_of_int c :: int64)
      = word_of_int (cancel_contest.amount self - c)"
    by simp
  then show ?thesis
    using sint_exact [OF assms(1)] sint_exact [OF assms(2)] word_zero_exact [OF assms(2)]
    by (simp add: contest_outputs_def)
qed


lemma entry_le_total:
  fixes sched :: "(TimeSpec \<times> Amount) list"
  assumes nn: "\<forall>(t, a) \<in> set sched. 0 \<le> a" and mem: "(t, a) \<in> set sched"
  shows "a \<le> sum_list (map snd sched)"
proof -
  from mem obtain i where i: "i < length sched" "sched ! i = (t, a)"
    by (auto simp: in_set_conv_nth)
  have "a = cumulative sched (Suc i) - cumulative sched i"
    using i by (simp add: cumulative_Suc)
  also have "\<dots> \<le> cumulative sched (Suc i)"
    using cumulative_nonneg [OF nn, of i] by simp
  also have "\<dots> \<le> sum_list (map snd sched)"
    by (rule cumulative_le_total [OF nn])
  finally show ?thesis .
qed

lemma entries_fit:
  fixes sched :: "(TimeSpec \<times> Amount) list"
  assumes nn: "\<forall>(t, a) \<in> set sched. 0 \<le> a" and tot: "sum_list (map snd sched) < 2 ^ 63"
  shows "\<forall>(t, a) \<in> set sched. in_int64 a"
proof (intro ballI)
  fix x assume x: "x \<in> set sched"
  obtain t a where ta: "x = (t, a)" by (cases x)
  have "0 \<le> a" using nn x ta by auto
  moreover have "a \<le> sum_list (map snd sched)"
    using entry_le_total [OF nn] x ta by simp
  ultimately show "case x of (t, a) \<Rightarrow> in_int64 a"
    using tot by (simp add: ta in_int64_def)
qed

lemma exact_outputs:
  assumes nn: "\<forall>(t, a) \<in> set (cancel_contest.schedule self). 0 \<le> a"
    and a0: "0 \<le> cancel_contest.amount self" and a1: "cancel_contest.amount self < 2 ^ 63"
    and tot: "sum_list (map snd (cancel_contest.schedule self)) < 2 ^ 63"
    and i: "i < length (cancel_contest.schedule self)"
  shows "outputs (fst (counterclaim self) ! i) =
     (cumulative (cancel_contest.schedule self) (Suc i), cancel_contest.recipient self) #
     (if cancel_contest.amount self = cumulative (cancel_contest.schedule self) (Suc i)
      then []
      else [(cancel_contest.amount self - cumulative (cancel_contest.schedule self) (Suc i),
             cancel_contest.return_address self)])"
proof -
  let ?c = "cumulative (cancel_contest.schedule self) (Suc i)"
  have amt: "in_int64 (cancel_contest.amount self)"
    using a0 a1 by (simp add: in_int64_def)
  have c0: "0 \<le> ?c" by (rule cumulative_nonneg [OF nn])
  have c1: "?c < 2 ^ 63" using cumulative_le_total [OF nn, of "Suc i"] tot by linarith
  have c: "in_int64 ?c" using c0 c1 by (simp add: in_int64_def)
  have d: "in_int64 (cancel_contest.amount self - ?c)"
    using a0 a1 c0 c1 by (simp add: in_int64_def)
  show ?thesis
    by (simp only: counterclaim_nth [OF amt entries_fit [OF nn tot] i]
        contest_outputs_exact [OF c d])
qed

text \<open>
  C2, as the code has it. The running total of \<^verbatim>\<open>counterclaim\<close> is a 64-bit integer.
  For a contest whose amounts are non-negative and whose bound amount and schedule total
  are below \<open>2\<^sup>6\<^sup>3\<close>, with a schedule of \<open>K\<close> entries: the generator yields exactly \<open>K\<close>
  templates and raises nothing. The template at position \<open>i\<close> (counted from 0) pays the
  sum of the first \<open>i + 1\<close> schedule amounts to the recipient, followed by a refund of the
  bound amount minus that sum to the return address; the refund output is left out
  altogether when the sum equals the bound amount. The amounts paid to the recipient are
  non-decreasing along the templates. For schedule \<open>[(h1, 50), (h2, 50)]\<close> and amount 100
  there are two templates: 50 to the recipient with a refund of 50, then 100 to the
  recipient and no refund output.
\<close>

theorem generator_laws:
  "((\<forall>(t, a) \<in> set (cancel_contest.schedule self). 0 \<le> a)
      \<and> 0 \<le> cancel_contest.amount self \<and> cancel_contest.amount self < 2 ^ 63
      \<and> sum_list (map snd (cancel_contest.schedule self)) < 2 ^ 63 \<longrightarrow>
        snd (counterclaim self) = None
      \<and> length (fst (counterclaim self)) = length (cancel_contest.schedule self)
      \<and> (\<forall>i < length (cancel_contest.schedule self).
           outputs (fst (counterclaim self) ! i) =
             (cumulative (cancel_contest.schedule self) (Suc i), cancel_contest.recipient self) #
             (if cancel_contest.amount self = cumulative (cancel_contest.schedule self) (Suc i)
              then []
              else [(cancel_contest.amount self
                       - cumulative (cancel_contest.schedule self) (Suc i),
                     cancel_contest.return_address self)]))
      \<and> (\<forall>i j. i \<le> j \<and> j < length (cancel_contest.schedule self) \<longrightarrow>
             fst (hd (outputs (fst (counterclaim self) ! i)))
               \<le> fst (hd (outputs (fst (counterclaim self) ! j)))))
   \<and> counterclaim (CancelContest 100 r [(h1, 50), (h2, 50)] ra wk rt) =
       ([timelocked h1 [(50, r), (50, ra)], timelocked h2 [(100, r)]], None)"
proof (intro conjI impI)
  let ?sched = "cancel_contest.schedule self"
  assume h: "(\<forall>(t, a) \<in> set ?sched. 0 \<le> a)
      \<and> 0 \<le> cancel_contest.amount self \<and> cancel_contest.amount self < 2 ^ 63
      \<and> sum_list (map snd ?sched) < 2 ^ 63"
  then have nn: "\<forall>(t, a) \<in> set ?sched. 0 \<le> a"
    and a0: "0 \<le> cancel_contest.amount self" and a1: "cancel_contest.amount self < 2 ^ 63"
    and tot: "sum_list (map snd ?sched) < 2 ^ 63"
    by simp_all
  have amt: "in_int64 (cancel_contest.amount self)"
    using a0 a1 by (simp add: in_int64_def)
  note eq = counterclaim_eq [OF amt entries_fit [OF nn tot]]
  show "snd (counterclaim self) = None"
    by (simp add: eq)
  show "length (fst (counterclaim self)) = length ?sched"
    by (simp add: eq)
  show "\<forall>i < length ?sched.
           outputs (fst (counterclaim self) ! i) =
             (cumulative ?sched (Suc i), cancel_contest.recipient self) #
             (if cancel_contest.amount self = cumulative ?sched (Suc i)
              then []
              else [(cancel_contest.amount self - cumulative ?sched (Suc i),
                     cancel_contest.return_address self)])"
    using exact_outputs [OF nn a0 a1 tot] by blast
  show "\<forall>i j. i \<le> j \<and> j < length ?sched \<longrightarrow>
             fst (hd (outputs (fst (counterclaim self) ! i)))
               \<le> fst (hd (outputs (fst (counterclaim self) ! j)))"
  proof (intro allI impI)
    fix i j
    assume ij: "i \<le> j \<and> j < length ?sched"
    then have "cumulative ?sched (Suc i) \<le> cumulative ?sched (Suc j)"
      by (intro cumulative_mono [OF nn]) simp
    moreover from ij have "i < length ?sched" "j < length ?sched" by simp_all
    ultimately show "fst (hd (outputs (fst (counterclaim self) ! i)))
               \<le> fst (hd (outputs (fst (counterclaim self) ! j)))"
      by (simp add: exact_outputs [OF nn a0 a1 tot])
  qed
next
  show "counterclaim (CancelContest 100 r [(h1, 50), (h2, 50)] ra wk rt) =
       ([timelocked h1 [(50, r), (50, ra)], timelocked h2 [(100, r)]], None)"
    by (simp add: counterclaim_def int64_defs in_int64_def add_timeout_fresh
        add_output_timelocked)
qed


theorem generator_laws_witness:
  "length (fst (counterclaim (example_contest 100 [(AbsoluteTimeSpec 10, 50), (AbsoluteTimeSpec 20, 50)]))) = 2
   \<and> snd (counterclaim (example_contest 100 [(AbsoluteTimeSpec 10, 50), (AbsoluteTimeSpec 20, 50)])) = None
   \<and> outputs (fst (counterclaim (example_contest 100 [(AbsoluteTimeSpec 10, 50), (AbsoluteTimeSpec 20, 50)])) ! 0)
       = [(50, OtherContract ''recipient''), (50, OtherContract ''return'')]
   \<and> outputs (fst (counterclaim (example_contest 100 [(AbsoluteTimeSpec 10, 50), (AbsoluteTimeSpec 20, 50)])) ! 1)
       = [(100, OtherContract ''recipient'')]
   \<and> fst (hd (outputs (fst (counterclaim (example_contest 100 [(AbsoluteTimeSpec 10, 50), (AbsoluteTimeSpec 20, 50)])) ! 0)))
       \<le> fst (hd (outputs (fst (counterclaim (example_contest 100 [(AbsoluteTimeSpec 10, 50), (AbsoluteTimeSpec 20, 50)])) ! 1)))"
proof -
  let ?c = "example_contest 100 [(AbsoluteTimeSpec 10, 50), (AbsoluteTimeSpec 20, 50)]"
  have sched: "cancel_contest.schedule ?c = [(AbsoluteTimeSpec 10, 50), (AbsoluteTimeSpec 20, 50)]"
    and flds: "cancel_contest.amount ?c = 100"
      "cancel_contest.recipient ?c = OtherContract ''recipient''"
      "cancel_contest.return_address ?c = OtherContract ''return''"
    by (simp_all add: example_defs)
  have h: "(\<forall>(t, a) \<in> set (cancel_contest.schedule ?c). 0 \<le> a)
      \<and> 0 \<le> cancel_contest.amount ?c \<and> cancel_contest.amount ?c < 2 ^ 63
      \<and> sum_list (map snd (cancel_contest.schedule ?c)) < 2 ^ 63"
    by (simp add: sched flds)
  note g = generator_laws [of ?c, THEN conjunct1, THEN mp, OF h]
  have len: "length (fst (counterclaim ?c)) = 2"
    using g by (simp add: sched)
  have err: "snd (counterclaim ?c) = None"
    using g by simp
  have o0: "outputs (fst (counterclaim ?c) ! 0)
       = [(50, OtherContract ''recipient''), (50, OtherContract ''return'')]"
    using g [THEN conjunct2, THEN conjunct2, THEN conjunct1, rule_format, of 0]
    by (simp add: sched flds cumulative_def)
  have o1: "outputs (fst (counterclaim ?c) ! 1)
       = [(100, OtherContract ''recipient'')]"
    using g [THEN conjunct2, THEN conjunct2, THEN conjunct1, rule_format, of 1]
    by (simp add: sched flds cumulative_def)
  have mono: "fst (hd (outputs (fst (counterclaim ?c) ! 0)))
       \<le> fst (hd (outputs (fst (counterclaim ?c) ! 1)))"
    using g [THEN conjunct2, THEN conjunct2, THEN conjunct2, rule_format, of 0 1]
    by (simp add: sched)
  from len err o0 o1 mono show ?thesis by (intro conjI)
qed

text \<open>
  The claim as first stated has the amount paid to the recipient equal to the cumulative
  sum, and non-decreasing, for every binding. With amount 5 and schedule
  \<open>[(h1, 2\<^sup>6\<^sup>3 - 1), (h2, 1)]\<close> the running total wraps around: the second template pays
  \<open>-2\<^sup>6\<^sup>3\<close> to the recipient, where the cumulative sum is \<open>2\<^sup>6\<^sup>3\<close> and the first
  template paid \<open>2\<^sup>6\<^sup>3 - 1\<close>.
\<close>

theorem cumulative_wrap_counterexample:
  "counterclaim
     (CancelContest 5 (OtherContract ''recipient'')
        [(AbsoluteTimeSpec 1, 9223372036854775807), (AbsoluteTimeSpec 2, 1)]
        (OtherContract ''return'') ''watchtower'' (RelativeTimeSpec 5)) =
     ([\<lparr>outputs = [(9223372036854775807, OtherContract ''recipient''),
                     (- 9223372036854775802, OtherContract ''return'')],
         sequence = None, locktime = Some 1\<rparr>,
       \<lparr>outputs = [(- 9223372036854775808, OtherContract ''recipient''),
                     (- 9223372036854775803, OtherContract ''return'')],
         sequence = None, locktime = Some 2\<rparr>], None)
   \<and> cumulative [(AbsoluteTimeSpec 1, 9223372036854775807), (AbsoluteTimeSpec 2, 1)] 2
       = 9223372036854775808
   \<and> (- 9223372036854775808 :: int) \<noteq> 9223372036854775808
   \<and> \<not> ((9223372036854775807 :: int) \<le> - 9223372036854775808)"
  by (simp add: counterclaim_def path_defs int64_defs in_int64_def cumulative_def)





section \<open>\<^verbatim>\<open>auto_pay\<close>\<close>






section \<open>Time specs\<close>

text \<open>
  C7. \<^verbatim>\<open>add_timeout\<close> applies a relative time spec by \<^verbatim>\<open>set_sequence\<close> and an absolute
  one by \<^verbatim>\<open>set_locktime\<close>, each with the spec's \<^verbatim>\<open>time\<close>, and leaves the template as
  it is for any other value. \<^verbatim>\<open>set_sequence\<close> changes the sequence field only and
  \<^verbatim>\<open>set_locktime\<close> the locktime field only, so for a single delay \<^verbatim>\<open>add_timeout\<close> never
  sets both fields.
\<close>

theorem timespec_encoding:
  "add_timeout tx (IsTimeSpec (RelativeTimeSpec t)) = set_sequence tx t
   \<and> add_timeout tx (IsTimeSpec (AbsoluteTimeSpec t)) = set_locktime tx t
   \<and> add_timeout tx NotTimeSpec = Inr tx
   \<and> (\<forall>tx'. set_sequence tx t = Inr tx' \<longrightarrow>
         sequence tx' = Some t \<and> locktime tx' = locktime tx \<and> outputs tx' = outputs tx)
   \<and> (\<forall>tx'. set_locktime tx t = Inr tx' \<longrightarrow>
         locktime tx' = Some t \<and> sequence tx' = sequence tx \<and> outputs tx' = outputs tx)
   \<and> (\<forall>tx'. add_timeout tx d = Inr tx' \<longrightarrow>
         sequence tx' = sequence tx \<or> locktime tx' = locktime tx)"
proof -
  have seq: "\<forall>tx'. set_sequence tx t = Inr tx' \<longrightarrow>
         sequence tx' = Some t \<and> locktime tx' = locktime tx \<and> outputs tx' = outputs tx" for t
    by (auto simp: set_sequence_def split: option.splits)
  have lock: "\<forall>tx'. set_locktime tx t = Inr tx' \<longrightarrow>
         locktime tx' = Some t \<and> sequence tx' = sequence tx \<and> outputs tx' = outputs tx" for t
    by (auto simp: set_locktime_def split: option.splits)
  have both: "\<forall>tx'. add_timeout tx d = Inr tx' \<longrightarrow>
         sequence tx' = sequence tx \<or> locktime tx' = locktime tx"
  proof (cases d)
    case (IsTimeSpec ts)
    then show ?thesis using seq lock by (cases ts) auto
  next
    case NotTimeSpec
    then show ?thesis by simp
  qed
  have rel: "add_timeout tx (IsTimeSpec (RelativeTimeSpec t)) = set_sequence tx t"
    and abs: "add_timeout tx (IsTimeSpec (AbsoluteTimeSpec t)) = set_locktime tx t"
    and other: "add_timeout tx NotTimeSpec = Inr tx"
    by simp_all
  from rel abs other seq [of t] lock [of t] both show ?thesis by (intro conjI)
qed

theorem timespec_encoding_witness:
  "add_timeout TransactionTemplate (IsTimeSpec (RelativeTimeSpec 7)) =
     Inr \<lparr>outputs = [], sequence = Some 7, locktime = None\<rparr>
   \<and> sequence \<lparr>outputs = [], sequence = Some 7, locktime = None\<rparr> = Some 7
   \<and> locktime \<lparr>outputs = [], sequence = Some 7, locktime = None\<rparr> = locktime TransactionTemplate
   \<and> add_timeout TransactionTemplate (IsTimeSpec (AbsoluteTimeSpec 7)) =
     Inr \<lparr>outputs = [], sequence = None, locktime = Some 7\<rparr>
   \<and> sequence \<lparr>outputs = [], sequence = None, locktime = Some 7\<rparr> = sequence TransactionTemplate"
proof -
  note e = timespec_encoding [of TransactionTemplate 7]
  have s: "set_sequence TransactionTemplate 7 = Inr \<lparr>outputs = [], sequence = Some 7, locktime = None\<rparr>"
    and l: "set_locktime TransactionTemplate 7 = Inr \<lparr>outputs = [], sequence = None, locktime = Some 7\<rparr>"
    by (simp_all add: path_defs)
  from e [of NotTimeSpec] have
    a: "add_timeout TransactionTemplate (IsTimeSpec (RelativeTimeSpec 7)) = set_sequence TransactionTemplate 7"
    and b: "add_timeout TransactionTemplate (IsTimeSpec (AbsoluteTimeSpec 7)) = set_locktime TransactionTemplate 7"
    and c: "\<forall>tx'. set_sequence TransactionTemplate 7 = Inr tx' \<longrightarrow>
         sequence tx' = Some 7 \<and> locktime tx' = locktime TransactionTemplate \<and> outputs tx' = outputs TransactionTemplate"
    and d: "\<forall>tx'. set_locktime TransactionTemplate 7 = Inr tx' \<longrightarrow>
         locktime tx' = Some 7 \<and> sequence tx' = sequence TransactionTemplate \<and> outputs tx' = outputs TransactionTemplate"
    by blast+
  from c [rule_format, OF s] d [rule_format, OF l] a b s l show ?thesis by simp
qed

section \<open>The payment list\<close>

lemma py_map_Inr_D: "py_map f xs = Inr ys \<Longrightarrow> map f xs = map Inr ys"
proof (induction xs arbitrary: ys)
  case Nil
  then show ?case by simp
next
  case (Cons x xs)
  from Cons.prems obtain y zs where "f x = Inr y" "py_map f xs = Inr zs" "ys = y # zs"
    by (auto split: sum.splits)
  with Cons.IH [of zs] show ?case by simp
qed

lemma py_map_Inr_I: "map f xs = map Inr ys \<Longrightarrow> py_map f xs = Inr ys"
proof (induction xs arbitrary: ys)
  case Nil
  then show ?case by simp
next
  case (Cons x xs)
  from Cons.prems obtain y zs where ys: "ys = y # zs" "f x = Inr y" "map f xs = map Inr zs"
    by (cases ys) auto
  from Cons.IH [OF ys(3)] ys show ?case by simp
qed

lemma py_map_Inr: "py_map f xs = Inr ys \<longleftrightarrow> map f xs = map Inr ys"
  using py_map_Inr_D py_map_Inr_I by blast

lemma py_map_all:
  "(\<forall>x \<in> set xs. f x = Inr (g x)) \<Longrightarrow> py_map f xs = Inr (map g xs)"
  by (induction xs) simp_all

lemma validate_cases:
  "validate address_schema arg =
     (if \<exists>items. arg = JArray items \<and> list_all address_schema items
      then Inr () else Inl ValidationError)"
  by (cases arg) (simp_all add: validate_def)

text \<open>
  C8. \<^verbatim>\<open>convert\<close> validates its argument first: validation passes exactly when the
  argument is an array whose items all conform to the address schema, and otherwise
  \<^verbatim>\<open>convert\<close> raises the validation error and returns nothing. When validation passes,
  \<^verbatim>\<open>convert\<close> is the element-wise conversion of the items in order: if every item's
  conversion returns, the result is the list of those results; and any list it returns
  has the length of the input, with entry \<open>i\<close> the conversion of item \<open>i\<close>.
\<close>

theorem payments_convert:
  "(validate address_schema arg = Inr ()) =
       (\<exists>items. arg = JArray items \<and> list_all address_schema items)
   \<and> (validate address_schema arg \<noteq> Inr () \<longrightarrow>
        validate address_schema arg = Inl ValidationError
        \<and> convert address_schema address_convert arg ctx = Inl ValidationError)
   \<and> (\<forall>items. arg = JArray items \<and> validate address_schema arg = Inr () \<longrightarrow>
        convert address_schema address_convert arg ctx =
          py_map (\<lambda>p. address_convert p ctx) items)
   \<and> (\<forall>items g. arg = JArray items \<and> validate address_schema arg = Inr ()
          \<and> (\<forall>p \<in> set items. address_convert p ctx = Inr (g p)) \<longrightarrow>
        convert address_schema address_convert arg ctx = Inr (map g items))
   \<and> (\<forall>rs. convert address_schema address_convert arg ctx = Inr rs \<longrightarrow>
        (\<exists>items. arg = JArray items \<and> list_all address_schema items
           \<and> length rs = length items
           \<and> (\<forall>i < length items. address_convert (items ! i) ctx = Inr (rs ! i))))"
proof -
  have a: "(validate address_schema arg = Inr ()) =
       (\<exists>items. arg = JArray items \<and> list_all address_schema items)"
    by (simp add: validate_cases)
  have b: "validate address_schema arg \<noteq> Inr () \<longrightarrow>
        validate address_schema arg = Inl ValidationError
        \<and> convert address_schema address_convert arg ctx = Inl ValidationError"
    by (simp add: validate_cases convert_def)
  have c: "\<forall>items. arg = JArray items \<and> validate address_schema arg = Inr () \<longrightarrow>
        convert address_schema address_convert arg ctx =
          py_map (\<lambda>p. address_convert p ctx) items"
    by (auto simp: convert_def)
  have d: "\<forall>items g. arg = JArray items \<and> validate address_schema arg = Inr ()
          \<and> (\<forall>p \<in> set items. address_convert p ctx = Inr (g p)) \<longrightarrow>
        convert address_schema address_convert arg ctx = Inr (map g items)"
  proof (intro allI impI)
    fix items g
    assume h: "arg = JArray items \<and> validate address_schema arg = Inr ()
          \<and> (\<forall>p \<in> set items. address_convert p ctx = Inr (g p))"
    then have "py_map (\<lambda>p. address_convert p ctx) items = Inr (map g items)"
      by (intro py_map_all) simp
    with h show "convert address_schema address_convert arg ctx = Inr (map g items)"
      by (auto simp: convert_def)
  qed
  have e: "\<forall>rs. convert address_schema address_convert arg ctx = Inr rs \<longrightarrow>
        (\<exists>items. arg = JArray items \<and> list_all address_schema items
           \<and> length rs = length items
           \<and> (\<forall>i < length items. address_convert (items ! i) ctx = Inr (rs ! i)))"
  proof (intro allI impI)
    fix rs
    assume r: "convert address_schema address_convert arg ctx = Inr rs"
    then have v: "validate address_schema arg = Inr ()"
      by (auto simp: convert_def split: sum.splits)
    with a obtain items where items: "arg = JArray items" "list_all address_schema items"
      by auto
    from r v items have "py_map (\<lambda>p. address_convert p ctx) items = Inr rs"
      by (simp add: convert_def)
    then have m: "map (\<lambda>p. address_convert p ctx) items = map Inr rs"
      by (simp add: py_map_Inr)
    then have len: "length rs = length items"
      by (metis length_map)
    have "\<forall>i < length items. address_convert (items ! i) ctx = Inr (rs ! i)"
    proof (intro allI impI)
      fix i assume i: "i < length items"
      then have "map (\<lambda>p. address_convert p ctx) items ! i = map Inr rs ! i"
        using m by simp
      with i len show "address_convert (items ! i) ctx = Inr (rs ! i)" by simp
    qed
    with items len show "\<exists>items. arg = JArray items \<and> list_all address_schema items
           \<and> length rs = length items
           \<and> (\<forall>i < length items. address_convert (items ! i) ctx = Inr (rs ! i))"
      by blast
  qed
  from a b c d e show ?thesis by (intro conjI)
qed

theorem payments_convert_witness:
  "convert example_schema example_convert (JArray [JString ''a'', JString ''b'']) 5 =
     Inr [(5, OtherContract ''a''), (5, OtherContract ''b'')]
   \<and> convert example_schema example_convert (JArray [JString ''a'', JNumber 3]) 5 =
     Inl ValidationError
   \<and> convert example_schema example_convert (JString ''a'') 5 = Inl ValidationError"
proof -
  have v: "validate example_schema (JArray [JString ''a'', JString ''b'']) = Inr ()"
    by (simp add: validate_def example_schema_def)
  have el: "\<forall>p \<in> set [JString ''a'', JString ''b''].
      example_convert p 5 = Inr (5, OtherContract (case p of JString a \<Rightarrow> a | _ \<Rightarrow> ''''))"
    by (simp add: example_convert_def)
  have a: "convert example_schema example_convert (JArray [JString ''a'', JString ''b'']) 5 =
     Inr [(5, OtherContract ''a''), (5, OtherContract ''b'')]"
    using payments_convert [of example_schema "JArray [JString ''a'', JString ''b'']"
        example_convert 5, THEN conjunct2, THEN conjunct2, THEN conjunct2, THEN conjunct1,
        rule_format, of "[JString ''a'', JString ''b'']"
          "\<lambda>p. (5, OtherContract (case p of JString a \<Rightarrow> a | _ \<Rightarrow> ''''))"]
      v el by simp
  have nv: "validate example_schema (JArray [JString ''a'', JNumber 3]) \<noteq> Inr ()"
    "validate example_schema (JString ''a'') \<noteq> Inr ()"
    by (simp_all add: validate_def example_schema_def)
  have b: "convert example_schema example_convert (JArray [JString ''a'', JNumber 3]) 5 =
     Inl ValidationError"
    using payments_convert [of example_schema "JArray [JString ''a'', JNumber 3]"
        example_convert 5, THEN conjunct2, THEN conjunct1] nv(1) by simp
  have c: "convert example_schema example_convert (JString ''a'') 5 = Inl ValidationError"
    using payments_convert [of example_schema "JString ''a''"
        example_convert 5, THEN conjunct2, THEN conjunct1] nv(2) by simp
  from a b c show ?thesis by (intro conjI)
qed

section \<open>Determinism\<close>

lemmas st_defs = st_return_def st_raise_def st_bind_def new_template_def add_output_st_def
  set_sequence_st_def set_locktime_st_def

lemma step_st_eq:
  "step self = Inr tx \<Longrightarrow> step_st self s = (Inr (next_ref s), allocated s tx)"
  by (auto simp: step_st_def step_def st_defs path_defs allocated_def split: if_splits)

lemma claim_st_eq:
  "claim_st self s =
     (case claim self of
        Inl e \<Rightarrow> (Inl e, allocated s TransactionTemplate)
      | Inr tx \<Rightarrow> (Inr (next_ref s), allocated s tx))"
proof (cases "cancellable_subscription.schedule self")
  case Nil
  then show ?thesis
    by (simp add: claim_st_def claim_def st_defs allocated_def)
next
  case (Cons x rest)
  obtain d a where x: "x = (d, a)" by (cases x)
  show ?thesis
    by (cases d)
      (simp_all add: claim_st_def claim_def Cons x st_defs path_defs allocated_def)
qed

lemma body_st_eq:
  "st_bind new_template (\<lambda>tx.
     st_bind (add_timeout_st tx (IsTimeSpec t)) (\<lambda>_.
     st_bind (add_output_st tx earned rcp) (\<lambda>_.
     if refundable
     then st_bind (add_output_st tx refund ret) (\<lambda>_. st_return tx)
     else st_return tx))) s
   = (Inr (next_ref s),
      allocated s (timelocked t ((earned, rcp) #
                     (if refundable then [(refund, ret)] else []))))"
  by (cases t) (simp_all add: st_defs path_defs allocated_def timelocked_def)

lemma body_eq:
  "(case add_timeout TransactionTemplate (IsTimeSpec t) of
      Inl e \<Rightarrow> ([], Some e)
    | Inr tx \<Rightarrow>
        let tx = add_output tx earned rcp;
            tx = (if refundable then add_output tx refund ret else tx);
            (txs, err) = rest
        in (tx # txs, err))
   = (timelocked t ((earned, rcp) #
                     (if refundable then [(refund, ret)] else [])) # fst rest,
      snd rest)"
  by (simp add: add_timeout_fresh add_output_timelocked split_beta)

lemma yielded_Nil: "yielded s [] = s"
proof -
  have "(\<lambda>r. if next_ref s \<le> r \<and> r < next_ref s + length ([] :: template list)
             then ([] :: template list) ! (r - next_ref s) else obj s r) = obj s"
    by (rule ext) auto
  then show ?thesis by (simp add: yielded_def)
qed

lemma yielded_Cons: "yielded (allocated s tx) txs = yielded s (tx # txs)"
proof -
  have "(\<lambda>r. if Suc (next_ref s) \<le> r \<and> r < Suc (next_ref s) + length txs
             then txs ! (r - Suc (next_ref s))
             else ((obj s)(next_ref s := tx)) r)
      = (\<lambda>r. if next_ref s \<le> r \<and> r < next_ref s + length (tx # txs)
             then (tx # txs) ! (r - next_ref s)
             else obj s r)"
    by (rule ext) (auto simp: nth_Cons' Suc_diff_le)
  then show ?thesis by (simp add: yielded_def allocated_def cong: if_cong)
qed

lemma counterclaim_loop_st_eq:
  "counterclaim_loop_st self acc sched s =
     ((map (\<lambda>i. next_ref s + i) [0..<length (fst (counterclaim_loop self acc sched))],
       snd (counterclaim_loop self acc sched)),
      yielded s (fst (counterclaim_loop self acc sched)))"
proof (induction sched arbitrary: acc s)
  case Nil
  show ?case by (simp add: yielded_Nil)
next
  case (Cons x rest)
  obtain t a where x: "x = (t, a)" by (cases x)
  show ?case
  proof (cases "int64_add acc a")
    case (Inl e)
    then show ?thesis by (simp add: x yielded_Nil)
  next
    case earned: (Inr earned)
    show ?thesis
    proof (cases "int64_rsub (cancel_contest.amount self) earned")
      case (Inl e)
      then show ?thesis by (simp add: x earned yielded_Nil)
    next
      case refund: (Inr refund)
      let ?tx = "timelocked t ((sint earned, cancel_contest.recipient self) #
                     (if refund \<noteq> 0 then [(sint refund, cancel_contest.return_address self)]
                      else []))"
      let ?rest = "counterclaim_loop self earned rest"
      have pure: "counterclaim_loop self acc ((t, a) # rest) = (?tx # fst ?rest, snd ?rest)"
        by (simp only: counterclaim_loop.simps earned refund sum.case body_eq)
      have "counterclaim_loop_st self acc ((t, a) # rest) s =
          (case counterclaim_loop_st self earned rest (allocated s ?tx) of
             ((refs, err), s'') \<Rightarrow> ((next_ref s # refs, err), s''))"
        by (simp only: counterclaim_loop_st.simps earned refund sum.case body_st_eq prod.case)
      also have "\<dots> =
          ((next_ref s # map (\<lambda>i. Suc (next_ref s) + i) [0..<length (fst ?rest)], snd ?rest),
           yielded (allocated s ?tx) (fst ?rest))"
        by (simp add: Cons.IH allocated_def del: upt_Suc)
      also have "next_ref s # map (\<lambda>i. Suc (next_ref s) + i) [0..<length (fst ?rest)]
          = map (\<lambda>i. next_ref s + i) [0..<length (?tx # fst ?rest)]"
        by (simp add: map_upt_Suc del: upt_Suc)
      finally show ?thesis
        unfolding x pure fst_conv snd_conv yielded_Cons .
    qed
  qed
qed

lemma counterclaim_st_refs:
  "fst (counterclaim_st self s) =
     (map (\<lambda>i. next_ref s + i) [0..<length (fst (counterclaim self))], snd (counterclaim self))"
  by (simp add: counterclaim_st_def counterclaim_def counterclaim_loop_st_eq)

lemma counterclaim_st_next:
  "next_ref (snd (counterclaim_st self s)) = next_ref s + length (fst (counterclaim self))"
  by (simp add: counterclaim_st_def counterclaim_def counterclaim_loop_st_eq yielded_def)

lemma counterclaim_st_new:
  "i < length (fst (counterclaim self)) \<Longrightarrow>
   obj (snd (counterclaim_st self s)) (next_ref s + i) = fst (counterclaim self) ! i"
  by (simp add: counterclaim_st_def counterclaim_def counterclaim_loop_st_eq yielded_def)

lemma counterclaim_st_frame:
  "r < next_ref s \<Longrightarrow> obj (snd (counterclaim_st self s)) r = obj s r"
  by (simp add: counterclaim_st_def counterclaim_def counterclaim_loop_st_eq yielded_def)

lemma results_of_counterclaim_st:
  "results_of (counterclaim_st self s) = counterclaim self"
proof -
  let ?L = "fst (counterclaim self)"
  have "map (\<lambda>i. obj (snd (counterclaim_st self s)) (next_ref s + i)) [0..<length ?L]
      = map (\<lambda>i. ?L ! i) [0..<length ?L]"
    by (rule map_cong) (simp_all add: counterclaim_st_new)
  also have "\<dots> = ?L" by (rule map_nth)
  finally have "map (\<lambda>i. obj (snd (counterclaim_st self s)) (next_ref s + i)) [0..<length ?L]
      = ?L" .
  then show ?thesis
    by (simp add: results_of_def split_beta counterclaim_st_refs o_def prod_eq_iff
        del: upt_Suc)
qed

lemma twice_counterclaim:
  "results_of (fst (fst (twice (counterclaim_st self) s)), snd (twice (counterclaim_st self) s))
     = counterclaim self
   \<and> results_of (snd (fst (twice (counterclaim_st self) s)), snd (twice (counterclaim_st self) s))
     = counterclaim self"
proof -
  let ?L = "fst (counterclaim self)"
  let ?K = "length ?L"
  let ?s1 = "snd (counterclaim_st self s)"
  let ?s2 = "snd (counterclaim_st self ?s1)"
  have nth: "map (\<lambda>i. ?L ! i) [0..<?K] = ?L"
    by (rule map_nth)
  have tw: "twice (counterclaim_st self) s =
      ((fst (counterclaim_st self s), fst (counterclaim_st self ?s1)), ?s2)"
    by (simp add: twice_def split_beta)
  have "map (\<lambda>i. obj ?s2 (next_ref s + i)) [0..<?K] = map (\<lambda>i. ?L ! i) [0..<?K]"
  proof (rule map_cong)
    fix i assume "i \<in> set [0..<?K]"
    then have i: "i < ?K" by simp
    then have "next_ref s + i < next_ref ?s1" by (simp add: counterclaim_st_next)
    then have "obj ?s2 (next_ref s + i) = obj ?s1 (next_ref s + i)"
      by (rule counterclaim_st_frame)
    also have "\<dots> = ?L ! i" using i by (rule counterclaim_st_new)
    finally show "obj ?s2 (next_ref s + i) = ?L ! i" .
  qed simp
  with nth have first: "map (\<lambda>i. obj ?s2 (next_ref s + i)) [0..<?K] = ?L" by simp
  have "map (\<lambda>i. obj ?s2 (next_ref ?s1 + i)) [0..<?K] = map (\<lambda>i. ?L ! i) [0..<?K]"
    by (rule map_cong) (simp_all add: counterclaim_st_new)
  with nth have second: "map (\<lambda>i. obj ?s2 (next_ref ?s1 + i)) [0..<?K] = ?L" by simp
  have r1: "results_of (fst (counterclaim_st self s), ?s2) = counterclaim self"
    using first
    by (simp add: results_of_def counterclaim_st_refs o_def prod_eq_iff del: upt_Suc)
  have r2: "results_of (fst (counterclaim_st self ?s1), ?s2) = counterclaim self"
    using second
    by (simp add: results_of_def counterclaim_st_refs o_def prod_eq_iff del: upt_Suc)
  from r1 r2 show ?thesis by (simp add: tw)
qed

lemma result_of_step_st: "result_of (step_st self s) = step self"
proof -
  obtain tx where tx: "step self = Inr tx" using step_returns by blast
  show ?thesis by (simp add: step_st_eq [OF tx] tx result_of_def allocated_def)
qed

lemma result_of_claim_st: "result_of (claim_st self s) = claim self"
  by (cases "claim self") (simp_all add: claim_st_eq result_of_def allocated_def)

lemma twice_step:
  "step self = Inr tx \<Longrightarrow>
   twice (step_st self) s =
     ((Inr (next_ref s), Inr (Suc (next_ref s))), allocated (allocated s tx) tx)"
  by (simp add: twice_def step_st_eq allocated_def)

lemma twice_claim:
  "twice (claim_st self) s =
     (case claim self of
        Inl e \<Rightarrow> ((Inl e, Inl e), allocated (allocated s TransactionTemplate) TransactionTemplate)
      | Inr tx \<Rightarrow> ((Inr (next_ref s), Inr (Suc (next_ref s))), allocated (allocated s tx) tx))"
  by (cases "claim self") (simp_all add: twice_def claim_st_eq allocated_def)

lemma result_of_to_cold_st: "result_of (to_cold_st self s) = Inr (to_cold self)"
  by (simp add: to_cold_st_def to_cold_def st_defs result_of_def Let_def add_output_def
      TransactionTemplate_def)

lemma result_of_cancel_st: "result_of (cancel_st self s) = Inr (cancel self)"
  by (simp add: cancel_st_def cancel_def st_defs result_of_def Let_def add_output_def
      TransactionTemplate_def)

lemma result_of_finish_cancel_st: "result_of (finish_cancel_st self s) = finish_cancel self"
  by (simp add: finish_cancel_st_def finish_cancel_def st_defs result_of_def Let_def
      add_output_def set_sequence_def TransactionTemplate_def)

lemma result_of_undo_st: "result_of (undo_st self s) = Inr (undo self)"
  by (simp add: undo_st_def undo_def st_defs result_of_def Let_def add_output_def
      TransactionTemplate_def)

lemma result_of_complete_st: "result_of (complete_st self s) = complete self"
  by (simp add: complete_st_def complete_def st_defs result_of_def Let_def add_output_def
      set_sequence_def TransactionTemplate_def)

lemma result_of_undo2_st: "result_of (undo2_st self s) = Inr (undo2 self)"
  by (simp add: undo2_st_def undo2_def st_defs result_of_def Let_def add_output_def
      TransactionTemplate_def)

text \<open>
  C6. What a path yields depends on the bound fields only. Called in any two stores with
  the same binding, every path yields the same template (or raises the same exception),
  and the \<^verbatim>\<open>counterclaim\<close> generator yields the same sequence of templates and ends in
  the same way; the sequence is finite, with at most one template per schedule entry.
  The same holds for two calls one after the other, the second starting in the store the
  first has left: read after both calls, the two results of \<^verbatim>\<open>step\<close>, of \<^verbatim>\<open>claim\<close> and
  of \<^verbatim>\<open>counterclaim\<close> are the same, the second call having changed nothing of what the
  first had built.
\<close>

theorem determinism:
  "result_of (step_st v s) = result_of (step_st v s')
   \<and> result_of (to_cold_st v s) = result_of (to_cold_st v s')
   \<and> result_of (claim_st sub s) = result_of (claim_st sub s')
   \<and> result_of (cancel_st sub s) = result_of (cancel_st sub s')
   \<and> results_of (counterclaim_st cc s) = results_of (counterclaim_st cc s')
   \<and> result_of (finish_cancel_st cc s) = result_of (finish_cancel_st cc s')
   \<and> result_of (undo_st us s) = result_of (undo_st us s')
   \<and> result_of (complete_st us2 s) = result_of (complete_st us2 s')
   \<and> result_of (undo2_st us2 s) = result_of (undo2_st us2 s')
   \<and> result_of (fst (fst (twice (step_st v) s)), snd (twice (step_st v) s))
       = result_of (snd (fst (twice (step_st v) s)), snd (twice (step_st v) s))
   \<and> result_of (fst (fst (twice (claim_st sub) s)), snd (twice (claim_st sub) s))
       = result_of (snd (fst (twice (claim_st sub) s)), snd (twice (claim_st sub) s))
   \<and> results_of (fst (fst (twice (counterclaim_st cc) s)), snd (twice (counterclaim_st cc) s))
       = results_of (snd (fst (twice (counterclaim_st cc) s)), snd (twice (counterclaim_st cc) s))
   \<and> result_of (snd (fst (twice (step_st v) s)), snd (twice (step_st v) s)) = step v
   \<and> result_of (snd (fst (twice (claim_st sub) s)), snd (twice (claim_st sub) s)) = claim sub
   \<and> results_of (snd (fst (twice (counterclaim_st cc) s)), snd (twice (counterclaim_st cc) s))
       = counterclaim cc
   \<and> length (fst (results_of (counterclaim_st cc s))) \<le> length (cancel_contest.schedule cc)"
proof -
  obtain tx where tx: "step v = Inr tx" using step_returns by blast
  have st: "result_of (fst (fst (twice (step_st v) s)), snd (twice (step_st v) s)) = step v"
    "result_of (snd (fst (twice (step_st v) s)), snd (twice (step_st v) s)) = step v"
    by (simp_all add: twice_step [OF tx] tx result_of_def allocated_def)
  have cl: "result_of (fst (fst (twice (claim_st sub) s)), snd (twice (claim_st sub) s))
       = claim sub"
    "result_of (snd (fst (twice (claim_st sub) s)), snd (twice (claim_st sub) s)) = claim sub"
    by (cases "claim sub"; simp add: twice_claim result_of_def allocated_def)+
  note cc = twice_counterclaim [of cc s]
  have fin: "length (fst (counterclaim cc)) \<le> length (cancel_contest.schedule cc)"
    by (simp add: counterclaim_def counterclaim_loop_length)
  show ?thesis
    by (simp add: result_of_step_st result_of_claim_st results_of_counterclaim_st
        result_of_to_cold_st result_of_cancel_st result_of_finish_cancel_st
        result_of_undo_st result_of_complete_st result_of_undo2_st st cl cc fin)
qed

end
